theory Spec2Isabelle
  imports Main "HOL-Library.Char_ord" "HOL-Library.List_Lexorder"
begin

section \<open>Matrix fan-out of pipeline tasks: \<^verbatim>\<open>pkg/apis/pipeline/v1/matrix_types.go\<close>\<close>

subsection \<open>Go values\<close>

text \<open>
  Go's \<^verbatim>\<open>int\<close> is a 64-bit two's complement integer on the platforms the pipeline is
  built for. It is modelled as an \<^typ>\<open>int\<close>, and every arithmetic operation of the source
  (\<^verbatim>\<open>*=\<close>, \<^verbatim>\<open>+=\<close>, \<^verbatim>\<open>++\<close>) is followed by \<open>int64\<close>, which wraps its argument into
  the range from \<open>- 2 ^ 63\<close> up to \<open>2 ^ 63 - 1\<close>.
\<close>

definition int64 :: "int \<Rightarrow> int" where
  "int64 k = (k + 2 ^ 63) mod 2 ^ 64 - 2 ^ 63"

text \<open>
  \<^verbatim>\<open>len(s)\<close>. A Go slice holds at most \<open>2 ^ 63 - 1\<close> elements, so \<^verbatim>\<open>len\<close> itself never
  wraps.
\<close>

definition len :: "'a list \<Rightarrow> int" where
  "len s = int (length s)"

text \<open>
  A slice that the source compares with \<^verbatim>\<open>nil\<close> (\<^verbatim>\<open>Matrix.Params\<close> and
  \<^verbatim>\<open>Matrix.Include\<close>) is an option, \<open>None\<close> being the nil slice. \<open>elems\<close> gives what
  \<^verbatim>\<open>range\<close> and \<^verbatim>\<open>len\<close> see: nothing for the nil slice. Every other slice of the file
  is only ranged over, measured or appended to, where nil and empty agree, and is a list.
\<close>

definition elems :: "'a list option \<Rightarrow> 'a list" where
  "elems s = (case s of None \<Rightarrow> [] | Some xs \<Rightarrow> xs)"

text \<open>A method called on a nil \<^verbatim>\<open>*Matrix\<close> that reads a field panics.\<close>

datatype panic = NilPointerDereference

subsection \<open>Parameter model\<close>

text \<open>
  Modelled from the spec: the declarations of \<^verbatim>\<open>ParamType\<close>, \<^verbatim>\<open>ParamValue\<close>,
  \<^verbatim>\<open>Param\<close> and \<^verbatim>\<open>Params\<close> are not part of the file. A \<^verbatim>\<open>ParamValue\<close> is a
  tagged value; the fields are those that \<^verbatim>\<open>matrix_types.go\<close> reads and writes
  (\<^verbatim>\<open>Type\<close>, \<^verbatim>\<open>StringVal\<close>, \<^verbatim>\<open>ArrayVal\<close>). The source reads \<^verbatim>\<open>ArrayVal\<close> and
  \<^verbatim>\<open>StringVal\<close> without looking at the tag, and so does the model.
\<close>

datatype ParamType = ParamTypeString | ParamTypeArray | ParamTypeObject

record ParamValue =
  Type :: ParamType
  StringVal :: string
  ArrayVal :: "string list"

record Param =
  Name :: string
  Value :: ParamValue

type_synonym Params = "Param list"

text \<open>\<^verbatim>\<open>IncludeParams\<close>: its fields \<^verbatim>\<open>Name\<close> and \<^verbatim>\<open>Params\<close> carry the suffix \<open>_inc\<close>.\<close>

record IncludeParams =
  Name_inc :: string
  Params_inc :: Params

type_synonym IncludeParamsList = "IncludeParams list"

record Matrix =
  Params :: "Params option"
  Include :: "IncludeParamsList option"

subsection \<open>Combinations\<close>

text \<open>
  \<^verbatim>\<open>type Combination map[string]string\<close>. The map is an association list with one pair
  for each key; the order of the pairs is the order in which \<^verbatim>\<open>range\<close> visits the keys,
  which Go leaves open. \<open>index\<close> is \<^verbatim>\<open>c[key]\<close> (the zero value for a missing key),
  \<open>assign\<close> is \<^verbatim>\<open>c[key] = value\<close>.
\<close>

type_synonym Combination = "(string \<times> string) list"

type_synonym Combinations = "Combination list"

definition index :: "Combination \<Rightarrow> string \<Rightarrow> string" where
  "index c key = (case map_of c key of None \<Rightarrow> [] | Some v \<Rightarrow> v)"

fun assign :: "Combination \<Rightarrow> string \<Rightarrow> string \<Rightarrow> Combination" where
  "assign [] key v = [(key, v)]"
| "assign ((k, w) # c) key v = (if k = key then (key, v) # c else (k, w) # assign c key v)"

text \<open>
  \<^verbatim>\<open>sortCombination\<close>: the keys are collected, sorted with \<^verbatim>\<open>sort.Slice\<close> and the
  comparison \<^verbatim>\<open>order[i] <= order[j]\<close> on Go strings (bytewise lexicographic, the order
  of \<^typ>\<open>string\<close> here), and the pairs are stored again in that order. The keys of a
  map are distinct, so their sorted arrangement is unique and is what \<open>sort\<close> returns.
\<close>

definition sortCombination :: "Combination \<Rightarrow> string list \<times> Combination" where
  "sortCombination c =
     (let order = sort (map fst c);
          sortedCombination = foldl (\<lambda>sc key. assign sc key (index c key)) [] order
      in (order, sortedCombination))"

text \<open>\<^verbatim>\<open>initializeCombinations\<close>: one singleton map for each value of the array.\<close>

definition initializeCombinations :: "Param \<Rightarrow> Combinations" where
  "initializeCombinations param =
     map (\<lambda>v. [(Name param, v)]) (ArrayVal (Value param))"

text \<open>
  \<^verbatim>\<open>distribute\<close>: the values of the parameter are the outer loop, the existing
  combinations the inner loop; each step appends a sorted copy of the combination with
  the parameter set to the value.
\<close>

definition distribute :: "Combinations \<Rightarrow> Param \<Rightarrow> Combinations" where
  "distribute cs param =
     concat (map (\<lambda>v. map (\<lambda>combination.
                             snd (sortCombination (assign combination (Name param) v))) cs)
                 (ArrayVal (Value param)))"

definition fanOutMatrixParams :: "Combinations \<Rightarrow> Param \<Rightarrow> Combinations" where
  "fanOutMatrixParams cs param =
     (if len cs = 0 then initializeCombinations param else distribute cs param)"

definition toParams :: "Combinations \<Rightarrow> Params list" where
  "toParams cs =
     map (\<lambda>combination.
            map (\<lambda>key. \<lparr>Name = key,
                        Value = \<lparr>Type = ParamTypeString, StringVal = index combination key,
                                 ArrayVal = []\<rparr>\<rparr>)
                (fst (sortCombination combination))) cs"

text \<open>
  \<^verbatim>\<open>FanOut\<close> reads \<^verbatim>\<open>m.Params\<close> at once, so it panics on a nil receiver. The loop
  starts from the nil \<^verbatim>\<open>Combinations\<close>.
\<close>

fun FanOut :: "Matrix option \<Rightarrow> panic + Params list" where
  "FanOut None = Inl NilPointerDereference"
| "FanOut (Some m) = Inr (toParams (foldl fanOutMatrixParams [] (elems (Params m))))"

subsection \<open>Counting\<close>

fun HasInclude :: "Matrix option \<Rightarrow> bool" where
  "HasInclude None = False"
| "HasInclude (Some m) = (Include m \<noteq> None \<and> len (elems (Include m)) > 0)"

fun HasParams :: "Matrix option \<Rightarrow> bool" where
  "HasParams None = False"
| "HasParams (Some m) = (Params m \<noteq> None \<and> len (elems (Params m)) > 0)"

text \<open>
  The two counting methods return before any field is read when the receiver is nil,
  because \<open>HasParams\<close> and \<open>HasInclude\<close> are false there; past these tests the receiver
  is \<open>Some m\<close>.
\<close>

definition countGeneratedCombinationsFromParams :: "Matrix option \<Rightarrow> int" where
  "countGeneratedCombinationsFromParams mp =
     (if \<not> HasParams mp then 0
      else case mp of Some m \<Rightarrow>
        foldl (\<lambda>count param. int64 (count * len (ArrayVal (Value param)))) 1
              (elems (Params m)))"

text \<open>
  Modelled from the spec: \<^verbatim>\<open>extractParamMapArrVals\<close> is declared with \<^verbatim>\<open>Params\<close>,
  outside the file. It builds the mapping from each parameter's name to its array
  values.
\<close>

definition extractParamMapArrVals :: "Params \<Rightarrow> (string \<rightharpoonup> string list)" where
  "extractParamMapArrVals ps =
     foldl (\<lambda>paramsMap p. paramsMap(Name p \<mapsto> ArrayVal (Value p))) Map.empty ps"

text \<open>
  The inner loop of \<^verbatim>\<open>countNewCombinationsFromInclude\<close> over the parameters of one
  Include entry, from the running \<^verbatim>\<open>count\<close> to the \<^verbatim>\<open>count\<close> after the entry.
  \<^verbatim>\<open>slices.Contains(val, s)\<close> is \<open>s \<in> set val\<close>; \<^verbatim>\<open>break\<close> returns the count as it is.
\<close>

fun scanInclude :: "(string \<rightharpoonup> string list) \<Rightarrow> Params \<Rightarrow> int \<Rightarrow> int" where
  "scanInclude matrixParamMap [] count = count"
| "scanInclude matrixParamMap (param # rest) count =
     (case matrixParamMap (Name param) of
        Some val \<Rightarrow>
          if StringVal (Value param) \<notin> set val
          then scanInclude matrixParamMap rest (int64 (count + 1))
          else count
      | None \<Rightarrow> scanInclude matrixParamMap rest count)"

definition countNewCombinationsFromInclude :: "Matrix option \<Rightarrow> int" where
  "countNewCombinationsFromInclude mp =
     (if \<not> HasInclude mp then 0
      else if \<not> HasParams mp then (case mp of Some m \<Rightarrow> len (elems (Include m)))
      else case mp of Some m \<Rightarrow>
        (let matrixParamMap = extractParamMapArrVals (elems (Params m))
         in foldl (\<lambda>count include. scanInclude matrixParamMap (Params_inc include) count)
                  0 (elems (Include m))))"

definition CountCombinations :: "Matrix option \<Rightarrow> int" where
  "CountCombinations mp =
     (let count = countGeneratedCombinationsFromParams mp
      in int64 (count + countNewCombinationsFromInclude mp))"

subsection \<open>The bound check\<close>

text \<open>
  Modelled from the spec: \<^verbatim>\<open>apis.FieldError\<close>, \<^verbatim>\<open>ErrOutOfBoundsValue\<close> and \<^verbatim>\<open>Also\<close>
  belong to an imported package. A bounds error carries the offending value, the lower
  and the upper end of the allowed range and the field path; an aggregated error is the
  list of the failures collected so far, the nil error being the empty list, and
  \<open>Also\<close> adds failures to it.
\<close>

datatype FieldError = ErrOutOfBoundsValue int int int string

definition Also :: "FieldError list \<Rightarrow> FieldError list \<Rightarrow> FieldError list" where
  "Also errs es = errs @ es"

text \<open>
  \<^verbatim>\<open>validateCombinationsCount\<close>. The maximum is read from the configuration in the
  context (\<^verbatim>\<open>DefaultMaxMatrixCombinationsCount\<close>) and is a parameter here. The named
  result \<^verbatim>\<open>errs\<close> starts as nil.
\<close>

definition validateCombinationsCount :: "Matrix option \<Rightarrow> int \<Rightarrow> FieldError list" where
  "validateCombinationsCount mp maxMatrixCombinationsCount =
     (let matrixCombinationsCount = CountCombinations mp
      in if matrixCombinationsCount > maxMatrixCombinationsCount
         then Also [] [ErrOutOfBoundsValue matrixCombinationsCount 0
                         maxMatrixCombinationsCount ''matrix'']
         else [])"

subsection \<open>Notions used to state the properties\<close>

text \<open>An array-typed and a string-typed parameter, as a matrix and an Include entry hold them.\<close>

definition arrayParam :: "string \<Rightarrow> string list \<Rightarrow> Param" where
  "arrayParam name vals =
     \<lparr>Name = name, Value = \<lparr>Type = ParamTypeArray, StringVal = [], ArrayVal = vals\<rparr>\<rparr>"

definition stringParam :: "string \<Rightarrow> string \<Rightarrow> Param" where
  "stringParam name val =
     \<lparr>Name = name, Value = \<lparr>Type = ParamTypeString, StringVal = val, ArrayVal = []\<rparr>\<rparr>"

text \<open>The product \<open>l1 * l2 * ... * ln\<close> of the array lengths, as a mathematical integer.\<close>

definition lengthsProduct :: "Params \<Rightarrow> int" where
  "lengthsProduct ps = prod_list (map (\<lambda>p. len (ArrayVal (Value p))) ps)"

text \<open>The assignment of names to values that one parameter list of the output makes.\<close>

definition assignment :: "Params \<Rightarrow> (string \<rightharpoonup> string)" where
  "assignment row = map_of (map (\<lambda>p. (Name p, StringVal (Value p))) row)"

text \<open>
  The Include rule in the words of the specification. A scanned parameter is
  \<open>present\<close> when its name is in the mapping and its value is among the array values
  stored there, \<open>absent\<close> when its name is in the mapping and its value is not.
  \<open>includeContribution\<close> counts the absent parameters scanned before the first present
  one, which is where the scan of an entry stops.
\<close>

definition present :: "(string \<rightharpoonup> string list) \<Rightarrow> Param \<Rightarrow> bool" where
  "present matrixParamMap p =
     (case matrixParamMap (Name p) of None \<Rightarrow> False
      | Some val \<Rightarrow> StringVal (Value p) \<in> set val)"

definition absent :: "(string \<rightharpoonup> string list) \<Rightarrow> Param \<Rightarrow> bool" where
  "absent matrixParamMap p =
     (case matrixParamMap (Name p) of None \<Rightarrow> False
      | Some val \<Rightarrow> StringVal (Value p) \<notin> set val)"

definition includeContribution :: "(string \<rightharpoonup> string list) \<Rightarrow> Params \<Rightarrow> nat" where
  "includeContribution matrixParamMap ps =
     length (filter (absent matrixParamMap)
                    (takeWhile (\<lambda>p. \<not> present matrixParamMap p) ps))"

text \<open>
  The position of a combination in the output as a number in mixed radix: \<open>blockSize ps k\<close>
  is the product of the array lengths of the first \<open>k\<close> parameters, and
  \<open>valueIndex ps k i\<close> is the place, in the array of parameter \<open>k\<close>, of the value that
  combination number \<open>i\<close> gives to it. The first parameter has block size 1 and changes at
  every step; parameter \<open>k\<close> keeps its value for \<open>blockSize ps k\<close> steps.
\<close>

definition blockSize :: "Params \<Rightarrow> nat \<Rightarrow> nat" where
  "blockSize ps k = prod_list (map (\<lambda>p. length (ArrayVal (Value p))) (take k ps))"

definition valueIndex :: "Params \<Rightarrow> nat \<Rightarrow> nat \<Rightarrow> nat" where
  "valueIndex ps k i = (i div blockSize ps k) mod length (ArrayVal (Value (ps ! k)))"

text \<open>Matrices of the examples.\<close>

definition osVerMatrix :: Matrix where
  "osVerMatrix =
     \<lparr>Params = Some [arrayParam ''OS'' [''linux'', ''mac''], arrayParam ''VER'' [''1'', ''2'']],
      Include = None\<rparr>"

definition emptyFirstMatrix :: Matrix where
  "emptyFirstMatrix =
     \<lparr>Params = Some [arrayParam ''A'' [], arrayParam ''B'' [''1'', ''2'']], Include = None\<rparr>"

definition sixtyFourParams :: Params where
  "sixtyFourParams = map (\<lambda>n. arrayParam [char_of (48 + n)] [''a'', ''b'']) [0 ..< 64]"

definition sixtyFourMatrix :: Matrix where
  "sixtyFourMatrix = \<lparr>Params = Some sixtyFourParams, Include = None\<rparr>"

definition fourFiveMatrix :: Matrix where
  "fourFiveMatrix =
     \<lparr>Params = Some [arrayParam ''A'' [''1'', ''2'', ''3'', ''4''],
                     arrayParam ''B'' [''1'', ''2'', ''3'', ''4'', ''5'']],
      Include = None\<rparr>"

definition windowsInclude :: IncludeParams where
  "windowsInclude = \<lparr>Name_inc = ''extra'', Params_inc = [stringParam ''OS'' ''windows'']\<rparr>"

definition windowsMatrix :: Matrix where
  "windowsMatrix = \<lparr>Params = None, Include = Some [windowsInclude]\<rparr>"

definition abMatrixParams :: Params where
  "abMatrixParams = [arrayParam ''A'' [''a''], arrayParam ''B'' [''b'']]"

definition absentThenPresent :: IncludeParams where
  "absentThenPresent =
     \<lparr>Name_inc = ''extra'', Params_inc = [stringParam ''A'' ''x'', stringParam ''B'' ''b'']\<rparr>"

definition abMatrix :: Matrix where
  "abMatrix = \<lparr>Params = Some abMatrixParams, Include = Some [absentThenPresent]\<rparr>"

definition unrelatedInclude :: IncludeParams where
  "unrelatedInclude =
     \<lparr>Name_inc = ''other'', Params_inc = [stringParam ''X'' ''1'', stringParam ''Y'' ''2'']\<rparr>"

section \<open>Properties\<close>

subsection \<open>Wrapping\<close>

lemma int64_id: "- (2 ^ 63) \<le> k \<Longrightarrow> k < 2 ^ 63 \<Longrightarrow> int64 k = k"
  by (simp add: int64_def)

lemma int64_cong: "a mod 2 ^ 64 = b mod 2 ^ 64 \<Longrightarrow> int64 a = int64 b"
  unfolding int64_def by (metis mod_add_left_eq)

lemma int64_mod: "int64 a mod 2 ^ 64 = a mod 2 ^ 64"
proof -
  have "int64 a = (a + 2 ^ 63) mod 2 ^ 64 + (- (2 ^ 63))" by (simp add: int64_def)
  then have "int64 a mod 2 ^ 64 = ((a + 2 ^ 63) + (- (2 ^ 63))) mod 2 ^ 64"
    by (simp only: mod_add_left_eq)
  then show ?thesis by simp
qed

lemma int64_mult_left: "int64 (int64 a * b) = int64 (a * b)"
  by (rule int64_cong) (metis int64_mod mod_mult_left_eq)

lemma int64_add_left: "int64 (int64 a + b) = int64 (a + b)"
  by (rule int64_cong) (metis int64_mod mod_add_left_eq)

lemma int64_zero: "int64 0 = 0"
  by (simp add: int64_def)


subsection \<open>The nil receiver\<close>

text \<open>
  C10. Calling \<^verbatim>\<open>CountCombinations\<close> on a nil Matrix pointer is well defined and returns
  0: \<open>HasParams\<close> and \<open>HasInclude\<close> are both false for the nil receiver, so neither
  counting method reads a field.
\<close>

theorem CountCombinations_nil_receiver:
  "\<not> HasParams None \<and> \<not> HasInclude None \<and> CountCombinations None = 0"
  by (simp add: CountCombinations_def countGeneratedCombinationsFromParams_def
      countNewCombinationsFromInclude_def int64_def)

subsection \<open>A zero-length array that is not the last one\<close>

text \<open>
  C1. The claim is that a zero-length array anywhere makes \<^verbatim>\<open>FanOut\<close> return nothing.
  \<open>fanOutMatrixParams\<close> takes an empty list of combinations for "no parameter seen yet"
  and starts again from the next parameter: for the parameters \<open>A\<close> with no value and
  \<open>B\<close> with the values 1 and 2, \<^verbatim>\<open>FanOut\<close> returns the two combinations of \<open>B\<close> alone.
\<close>

theorem FanOut_restarts_after_empty_array:
  "FanOut (Some emptyFirstMatrix) = Inr [[stringParam ''B'' ''1''], [stringParam ''B'' ''2'']]"
  by (simp add: emptyFirstMatrix_def elems_def fanOutMatrixParams_def len_def
      initializeCombinations_def arrayParam_def stringParam_def toParams_def
      sortCombination_def index_def)

subsection \<open>The bound check\<close>

text \<open>
  C5. For every Matrix and every configured maximum, \<^verbatim>\<open>validateCombinationsCount\<close>
  returns an error exactly when \<^verbatim>\<open>CountCombinations\<close> exceeds the maximum, and the error
  carries the computed count and the range from 0 to the maximum. With two parameters of
  4 and 5 values and no Include, the maximum 10 gives the error with the count 20 and
  the range from 0 to 10, and a maximum of at least 20 gives no error.
\<close>

theorem validateCombinationsCount_bound:
  "(validateCombinationsCount mp mx \<noteq> [] \<longleftrightarrow> mx < CountCombinations mp)
   \<and> (mx < CountCombinations mp \<longrightarrow>
        validateCombinationsCount mp mx =
          [ErrOutOfBoundsValue (CountCombinations mp) 0 mx ''matrix''])
   \<and> (Params m = Some [p1, p2] \<and> length (ArrayVal (Value p1)) = 4
        \<and> length (ArrayVal (Value p2)) = 5 \<and> elems (Include m) = [] \<longrightarrow>
        validateCombinationsCount (Some m) 10 = [ErrOutOfBoundsValue 20 0 10 ''matrix'']
        \<and> (20 \<le> mx \<longrightarrow> validateCombinationsCount (Some m) mx = []))"
proof -
  have general: "validateCombinationsCount mp mx =
      (if mx < CountCombinations mp
       then [ErrOutOfBoundsValue (CountCombinations mp) 0 mx ''matrix''] else [])"
    by (simp add: validateCombinationsCount_def Also_def Let_def)
  have twenty: "CountCombinations (Some m) = 20"
    if "Params m = Some [p1, p2]" "length (ArrayVal (Value p1)) = 4"
       "length (ArrayVal (Value p2)) = 5" "elems (Include m) = []"
    using that
    by (simp add: CountCombinations_def countGeneratedCombinationsFromParams_def
        countNewCombinationsFromInclude_def elems_def len_def int64_def)
  have "validateCombinationsCount (Some m) k =
      (if k < 20 then [ErrOutOfBoundsValue 20 0 k ''matrix''] else [])"
    if "Params m = Some [p1, p2]" "length (ArrayVal (Value p1)) = 4"
       "length (ArrayVal (Value p2)) = 5" "elems (Include m) = []" for k
    using twenty [OF that] by (simp add: validateCombinationsCount_def Also_def)
  then show ?thesis using general by simp
qed

theorem validateCombinationsCount_bound_witness:
  "validateCombinationsCount (Some fourFiveMatrix) 10 = [ErrOutOfBoundsValue 20 0 10 ''matrix'']
   \<and> validateCombinationsCount (Some fourFiveMatrix) 20 = []
   \<and> 10 < CountCombinations (Some fourFiveMatrix)"
proof -
  let ?a = "arrayParam ''A'' [''1'', ''2'', ''3'', ''4'']"
  let ?b = "arrayParam ''B'' [''1'', ''2'', ''3'', ''4'', ''5'']"
  have h: "Params fourFiveMatrix = Some [?a, ?b] \<and> length (ArrayVal (Value ?a)) = 4
      \<and> length (ArrayVal (Value ?b)) = 5 \<and> elems (Include fourFiveMatrix) = []"
    by (simp add: fourFiveMatrix_def arrayParam_def elems_def)
  have "(20::int) \<le> 20" by simp
  with h validateCombinationsCount_bound [of "Some fourFiveMatrix" 10 fourFiveMatrix ?a ?b]
    validateCombinationsCount_bound [of "Some fourFiveMatrix" 20 fourFiveMatrix ?a ?b]
  show ?thesis by fastforce
qed

subsection \<open>Counting without matrix parameters\<close>

text \<open>
  C6. For every Matrix whose \<^verbatim>\<open>Params\<close> are nil or empty and whose \<^verbatim>\<open>Include\<close> is not
  empty, \<^verbatim>\<open>CountCombinations\<close> is the length of \<^verbatim>\<open>Include\<close> (a Go slice has fewer than
  \<open>2 ^ 63\<close> elements); the Matrix with nil \<^verbatim>\<open>Params\<close> and the single Include entry
  \<open>extra\<close> with \<open>OS = windows\<close> has the count 1.
\<close>

theorem CountCombinations_without_params:
  "((Params m = None \<or> Params m = Some []) \<and> Include m = Some inc \<and> inc \<noteq> []
      \<and> length inc < 2 ^ 63 \<longrightarrow> CountCombinations (Some m) = len inc)
   \<and> CountCombinations (Some windowsMatrix) = 1"
proof -
  have "CountCombinations (Some m) = len inc"
    if "Params m = None \<or> Params m = Some []" "Include m = Some inc" "inc \<noteq> []"
       "length inc < 2 ^ 63"
  proof -
    have np: "\<not> HasParams (Some m)" using that(1) by (auto simp: elems_def len_def)
    have hi: "HasInclude (Some m)" using that(2,3) by (simp add: elems_def len_def)
    have "int (length inc) < 2 ^ 63" using that(4) by (metis of_nat_less_numeral_power_cancel_iff)
    then have "int64 (len inc) = len inc" by (intro int64_id) (simp_all add: len_def)
    then show ?thesis using np hi that(2)
      by (simp add: CountCombinations_def countGeneratedCombinationsFromParams_def
        countNewCombinationsFromInclude_def elems_def)
  qed
  moreover have "CountCombinations (Some windowsMatrix) = 1"
    by (simp add: windowsMatrix_def CountCombinations_def countGeneratedCombinationsFromParams_def
        countNewCombinationsFromInclude_def elems_def len_def int64_def)
  ultimately show ?thesis by blast
qed

theorem CountCombinations_without_params_witness:
  "Params windowsMatrix = None \<and> Include windowsMatrix = Some [windowsInclude]
   \<and> CountCombinations (Some windowsMatrix) = len [windowsInclude]"
  using CountCombinations_without_params [of windowsMatrix "[windowsInclude]"]
  by (simp add: windowsMatrix_def)

subsection \<open>\<^verbatim>\<open>FanOut\<close> does not read \<^verbatim>\<open>Include\<close>\<close>

text \<open>
  C8. For every Matrix whose \<^verbatim>\<open>Params\<close> are nil or empty, \<^verbatim>\<open>FanOut\<close> returns the empty
  sequence; and two Matrices with equal \<^verbatim>\<open>Params\<close> have the same \<^verbatim>\<open>FanOut\<close>, whatever
  their \<^verbatim>\<open>Include\<close> lists are.
\<close>

theorem FanOut_ignores_Include:
  "((Params m = None \<or> Params m = Some []) \<longrightarrow> FanOut (Some m) = Inr [])
   \<and> (Params m1 = Params m2 \<longrightarrow> FanOut (Some m1) = FanOut (Some m2))"
  by (auto simp: elems_def toParams_def)

theorem FanOut_ignores_Include_witness:
  "FanOut (Some windowsMatrix) = Inr []
   \<and> FanOut (Some (osVerMatrix\<lparr>Include := Some [windowsInclude]\<rparr>)) = FanOut (Some osVerMatrix)"
  using FanOut_ignores_Include [of windowsMatrix "osVerMatrix\<lparr>Include := Some [windowsInclude]\<rparr>" osVerMatrix]
  by (simp add: windowsMatrix_def)

subsection \<open>The Include scan\<close>

lemma int64_idem: "int64 (int64 a) = int64 a"
  using int64_add_left [of a 0] by simp

lemma extract_foldl_other:
  "name \<notin> Name ` set ps \<Longrightarrow>
   foldl (\<lambda>paramsMap p. paramsMap(Name p \<mapsto> ArrayVal (Value p))) m0 ps name = m0 name"
  by (induction ps arbitrary: m0) auto

lemma extractParamMapArrVals_None:
  "name \<notin> Name ` set ps \<Longrightarrow> extractParamMapArrVals ps name = None"
  by (simp add: extractParamMapArrVals_def extract_foldl_other)

lemma extract_foldl_distinct:
  "distinct (map Name ps) \<Longrightarrow> p \<in> set ps \<Longrightarrow>
   foldl (\<lambda>paramsMap p. paramsMap(Name p \<mapsto> ArrayVal (Value p))) m0 ps (Name p)
     = Some (ArrayVal (Value p))"
proof (induction ps arbitrary: m0)
  case Nil
  then show ?case by simp
next
  case (Cons q ps)
  show ?case
  proof (cases "p = q")
    case True
    then have "Name q \<notin> Name ` set ps" using Cons.prems(1) by auto
    then have "foldl (\<lambda>paramsMap p. paramsMap(Name p \<mapsto> ArrayVal (Value p)))
        (m0(Name q \<mapsto> ArrayVal (Value q))) ps (Name q)
      = (m0(Name q \<mapsto> ArrayVal (Value q))) (Name q)"
      by (rule extract_foldl_other)
    also have "\<dots> = Some (ArrayVal (Value q))" by simp
    finally show ?thesis using True by (simp del: fun_upd_apply)
  next
    case False
    then show ?thesis using Cons by auto
  qed
qed

lemma extractParamMapArrVals_distinct:
  "distinct (map Name ps) \<Longrightarrow> p \<in> set ps \<Longrightarrow>
   extractParamMapArrVals ps (Name p) = Some (ArrayVal (Value p))"
  by (simp add: extractParamMapArrVals_def extract_foldl_distinct)

lemma scanInclude_unrelated:
  "\<forall>p\<in>set ps. mp (Name p) = None \<Longrightarrow> scanInclude mp ps c = c"
  by (induction ps arbitrary: c) auto

lemma scanInclude_contribution:
  "int64 c = c \<Longrightarrow> scanInclude mp ps c = int64 (c + int (includeContribution mp ps))"
proof (induction ps arbitrary: c)
  case Nil
  then show ?case by (simp add: includeContribution_def)
next
  case (Cons p ps)
  show ?case
  proof (cases "mp (Name p)")
    case None
    then have "includeContribution mp (p # ps) = includeContribution mp ps"
      by (simp add: includeContribution_def present_def absent_def)
    then show ?thesis using None Cons by simp
  next
    case (Some val)
    show ?thesis
    proof (cases "StringVal (Value p) \<in> set val")
      case True
      then have "includeContribution mp (p # ps) = 0"
        using Some by (simp add: includeContribution_def present_def)
      then show ?thesis using Some True Cons.prems by simp
    next
      case False
      then have n: "includeContribution mp (p # ps) = Suc (includeContribution mp ps)"
        using Some by (simp add: includeContribution_def present_def absent_def)
      have "scanInclude mp (p # ps) c = scanInclude mp ps (int64 (c + 1))"
        using Some False by simp
      also have "\<dots> = int64 (int64 (c + 1) + int (includeContribution mp ps))"
        by (rule Cons.IH) (rule int64_idem)
      also have "\<dots> = int64 (c + int (includeContribution mp (p # ps)))"
        by (simp add: int64_add_left n add.assoc)
      finally show ?thesis .
    qed
  qed
qed

lemma foldl_scanInclude:
  "int64 c = c \<Longrightarrow>
   foldl (\<lambda>count include. scanInclude mp (Params_inc include) count) c incs
     = int64 (c + (\<Sum>include\<leftarrow>incs. int (includeContribution mp (Params_inc include))))"
proof (induction incs arbitrary: c)
  case Nil
  then show ?case by simp
next
  case (Cons e incs)
  let ?n = "int (includeContribution mp (Params_inc e))"
  have "foldl (\<lambda>count include. scanInclude mp (Params_inc include) count) (int64 (c + ?n)) incs
     = int64 (int64 (c + ?n) + (\<Sum>include\<leftarrow>incs. int (includeContribution mp (Params_inc include))))"
    by (rule Cons.IH) (rule int64_idem)
  then show ?case
    by (simp add: scanInclude_contribution [OF Cons.prems] int64_add_left add.assoc)
qed

text \<open>
  C3, as the code has it. For every Matrix with non-empty \<^verbatim>\<open>Params\<close> and non-empty
  \<^verbatim>\<open>Include\<close>, the Include contribution is the wrapped sum, over the entries, of the
  number of absent parameters that the scan of the entry meets before its first present
  parameter. At a present parameter the scan of the entry stops and adds nothing more,
  what the parameters before it added stays; at an absent parameter the scan adds 1 and
  goes on with the next parameter of the entry.
\<close>

theorem countNewCombinationsFromInclude_scan:
  "(HasParams (Some m) \<and> HasInclude (Some m) \<longrightarrow>
      countNewCombinationsFromInclude (Some m) =
        int64 (\<Sum>include\<leftarrow>elems (Include m).
                 int (includeContribution (extractParamMapArrVals (elems (Params m)))
                        (Params_inc include))))
   \<and> (present mp p \<and> (\<forall>q\<in>set pre. \<not> present mp q) \<longrightarrow>
        scanInclude mp (pre @ p # rest) c = scanInclude mp pre c)
   \<and> (absent mp p \<longrightarrow> scanInclude mp (p # rest) c = scanInclude mp rest (int64 (c + 1)))"
proof -
  have stop: "scanInclude mp (pre @ p # rest) c = scanInclude mp pre c"
    if "present mp p" "\<forall>q\<in>set pre. \<not> present mp q"
    using that
    by (induction pre arbitrary: c) (auto simp: present_def split: option.splits)
  have cont: "scanInclude mp (p # rest) c = scanInclude mp rest (int64 (c + 1))"
    if "absent mp p"
    using that by (auto simp: absent_def split: option.splits)
  have "countNewCombinationsFromInclude (Some m) =
      int64 (\<Sum>include\<leftarrow>elems (Include m).
                 int (includeContribution (extractParamMapArrVals (elems (Params m)))
                        (Params_inc include)))"
    if "HasParams (Some m)" "HasInclude (Some m)"
    using that foldl_scanInclude [OF int64_zero]
    by (simp add: countNewCombinationsFromInclude_def)
  with stop cont show ?thesis by blast
qed

theorem countNewCombinationsFromInclude_scan_witness:
  "HasParams (Some abMatrix) \<and> HasInclude (Some abMatrix)
   \<and> present (extractParamMapArrVals abMatrixParams) (stringParam ''B'' ''b'')
   \<and> absent (extractParamMapArrVals abMatrixParams) (stringParam ''A'' ''x'')
   \<and> countNewCombinationsFromInclude (Some abMatrix) = 1
   \<and> scanInclude (extractParamMapArrVals abMatrixParams)
        [stringParam ''A'' ''x'', stringParam ''B'' ''b'', stringParam ''A'' ''y''] 0 = 1"
proof -
  let ?mp = "extractParamMapArrVals abMatrixParams"
  have hp: "HasParams (Some abMatrix) \<and> HasInclude (Some abMatrix)"
    by (simp add: abMatrix_def abMatrixParams_def elems_def len_def)
  have pr: "present ?mp (stringParam ''B'' ''b'')"
    by (simp add: present_def extractParamMapArrVals_def abMatrixParams_def arrayParam_def
        stringParam_def)
  have ab: "absent ?mp (stringParam ''A'' ''x'')"
    by (simp add: absent_def extractParamMapArrVals_def abMatrixParams_def arrayParam_def
        stringParam_def)
  have npre: "\<forall>q\<in>set [stringParam ''A'' ''x'']. \<not> present ?mp q"
    by (simp add: present_def extractParamMapArrVals_def abMatrixParams_def arrayParam_def
        stringParam_def)
  have contrib: "includeContribution ?mp (Params_inc absentThenPresent) = 1"
    by (simp add: includeContribution_def absentThenPresent_def present_def absent_def
        extractParamMapArrVals_def abMatrixParams_def arrayParam_def stringParam_def)
  have el: "elems (Include abMatrix) = [absentThenPresent] \<and> elems (Params abMatrix) = abMatrixParams"
    by (simp add: abMatrix_def elems_def)
  note T = countNewCombinationsFromInclude_scan
  have "countNewCombinationsFromInclude (Some abMatrix) = 1"
    using T [of abMatrix ?mp "stringParam ''B'' ''b''" "[]" "[]" 0] hp contrib el
    by (simp add: int64_def)
  moreover have "scanInclude ?mp
        [stringParam ''A'' ''x'', stringParam ''B'' ''b'', stringParam ''A'' ''y''] 0
      = scanInclude ?mp [stringParam ''A'' ''x''] 0"
    using T [of abMatrix ?mp "stringParam ''B'' ''b''" "[stringParam ''A'' ''x'']"
        "[stringParam ''A'' ''y'']" 0] pr npre by simp
  moreover have "scanInclude ?mp [stringParam ''A'' ''x''] 0 = scanInclude ?mp [] (int64 (0 + 1))"
    using T [of abMatrix ?mp "stringParam ''A'' ''x''" "[]" "[]" 0] ab by blast
  ultimately show ?thesis using hp pr ab by (simp add: int64_def)
qed

text \<open>
  C3, as it is stated, says that an entry with a present parameter contributes 0 in
  total. The entry with \<open>A = x\<close> (absent) followed by \<open>B = b\<close> (present) contributes 1.
\<close>

theorem present_include_param_counted:
  "HasParams (Some abMatrix) \<and> HasInclude (Some abMatrix)
   \<and> Include abMatrix = Some [absentThenPresent]
   \<and> stringParam ''B'' ''b'' \<in> set (Params_inc absentThenPresent)
   \<and> extractParamMapArrVals (elems (Params abMatrix)) (Name (stringParam ''B'' ''b'')) = Some [''b'']
   \<and> StringVal (Value (stringParam ''B'' ''b'')) \<in> set [''b'']
   \<and> countNewCombinationsFromInclude (Some abMatrix) = 1
   \<and> CountCombinations (Some abMatrix) = 2"
  by (simp add: abMatrix_def abMatrixParams_def absentThenPresent_def elems_def len_def
      arrayParam_def stringParam_def extractParamMapArrVals_def
      countNewCombinationsFromInclude_def countGeneratedCombinationsFromParams_def
      CountCombinations_def int64_def)

text \<open>
  C9. For every Matrix with non-empty \<^verbatim>\<open>Params\<close>, an Include entry none of whose
  parameter names is a name of \<^verbatim>\<open>Matrix.Params\<close> contributes 0, however many parameters
  it has: its scan leaves the count as it is, and \<^verbatim>\<open>CountCombinations\<close> is the same with
  and without the entry.
\<close>

theorem unrelated_include_contributes_nothing:
  "HasParams (Some m)
   \<and> (\<forall>p\<in>set (Params_inc e). Name p \<notin> Name ` set (elems (Params m))) \<longrightarrow>
   scanInclude (extractParamMapArrVals (elems (Params m))) (Params_inc e) count = count
   \<and> CountCombinations (Some (m\<lparr>Include := Some (pre @ e # post)\<rparr>))
       = CountCombinations (Some (m\<lparr>Include := Some (pre @ post)\<rparr>))"
proof
  assume h: "HasParams (Some m)
   \<and> (\<forall>p\<in>set (Params_inc e). Name p \<notin> Name ` set (elems (Params m)))"
  let ?mp = "extractParamMapArrVals (elems (Params m))"
  have scan: "scanInclude ?mp (Params_inc e) c = c" for c
    using h by (intro scanInclude_unrelated) (simp add: extractParamMapArrVals_None)
  have hp: "HasParams (Some (m\<lparr>Include := inc\<rparr>))" for inc
    using h by simp
  have "countNewCombinationsFromInclude (Some (m\<lparr>Include := Some (pre @ e # post)\<rparr>))
      = countNewCombinationsFromInclude (Some (m\<lparr>Include := Some (pre @ post)\<rparr>))"
  proof (cases "pre @ post = []")
    case True
    then show ?thesis using hp scan
      by (simp add: countNewCombinationsFromInclude_def elems_def len_def)
  next
    case False
    then have "0 < int (length pre) + int (length post)" by (cases pre) auto
    then show ?thesis using hp scan
      by (simp add: countNewCombinationsFromInclude_def elems_def len_def)
  qed
  moreover have "countGeneratedCombinationsFromParams (Some (m\<lparr>Include := inc\<rparr>))
      = countGeneratedCombinationsFromParams (Some m)" for inc
    by (simp add: countGeneratedCombinationsFromParams_def)
  ultimately show "scanInclude ?mp (Params_inc e) count = count
   \<and> CountCombinations (Some (m\<lparr>Include := Some (pre @ e # post)\<rparr>))
       = CountCombinations (Some (m\<lparr>Include := Some (pre @ post)\<rparr>))"
    using scan by (simp add: CountCombinations_def)
qed

theorem unrelated_include_contributes_nothing_witness:
  "HasParams (Some abMatrix)
   \<and> CountCombinations (Some (abMatrix\<lparr>Include := Some ([absentThenPresent] @ unrelatedInclude # [])\<rparr>))
       = CountCombinations (Some (abMatrix\<lparr>Include := Some ([absentThenPresent] @ [])\<rparr>))
   \<and> CountCombinations (Some (abMatrix\<lparr>Include := Some ([] @ unrelatedInclude # [])\<rparr>)) = 1"
proof -
  have hp: "HasParams (Some abMatrix)"
    by (simp add: abMatrix_def abMatrixParams_def elems_def len_def)
  have un: "\<forall>p\<in>set (Params_inc unrelatedInclude). Name p \<notin> Name ` set (elems (Params abMatrix))"
    by (simp add: unrelatedInclude_def abMatrix_def abMatrixParams_def elems_def
        arrayParam_def stringParam_def)
  have base: "CountCombinations (Some (abMatrix\<lparr>Include := Some ([] @ [])\<rparr>)) = 1"
    by (simp add: abMatrix_def abMatrixParams_def elems_def len_def arrayParam_def
        countNewCombinationsFromInclude_def countGeneratedCombinationsFromParams_def
        CountCombinations_def int64_def)
  show ?thesis
    using hp un base
      unrelated_include_contributes_nothing [of abMatrix unrelatedInclude 0 "[absentThenPresent]" "[]"]
      unrelated_include_contributes_nothing [of abMatrix unrelatedInclude 0 "[]" "[]"]
    by simp
qed

subsection \<open>Combinations as maps\<close>

lemma map_of_assign: "map_of (assign c key v) = (map_of c)(key \<mapsto> v)"
  by (induction c key v rule: assign.induct) auto

lemma keys_assign: "set (map fst (assign c key v)) = insert key (set (map fst c))"
  by (induction c key v rule: assign.induct) auto

lemma distinct_assign: "distinct (map fst c) \<Longrightarrow> distinct (map fst (assign c key v))"
proof (induction c key v rule: assign.induct)
  case (1 key v)
  then show ?case by simp
next
  case (2 k w c key v)
  have "k \<notin> set (map fst (assign c key v))" if "k \<noteq> key"
    using that 2(2) by (simp only: keys_assign) auto
  then show ?case using 2 by auto
qed

lemma distinct_foldl_assign:
  "distinct (map fst acc) \<Longrightarrow>
   distinct (map fst (foldl (\<lambda>sc key. assign sc key (f key)) acc ks))"
  by (induction ks arbitrary: acc) (simp_all add: distinct_assign)

lemma map_of_foldl_assign:
  "map_of (foldl (\<lambda>sc key. assign sc key (f key)) acc ks) k
     = (if k \<in> set ks then Some (f k) else map_of acc k)"
  by (induction ks arbitrary: acc) (simp_all add: map_of_assign)

lemma index_Some: "map_of c k = Some v \<Longrightarrow> index c k = v"
  by (simp add: index_def)

lemma sortCombination_unfold:
  "sortCombination c =
     (sort (map fst c), foldl (\<lambda>sc key. assign sc key (index c key)) [] (sort (map fst c)))"
  by (simp add: sortCombination_def Let_def)

lemma map_of_sortCombination: "map_of (snd (sortCombination c)) = map_of c"
proof
  fix k
  show "map_of (snd (sortCombination c)) k = map_of c k"
  proof (cases "map_of c k")
    case None
    then have "k \<notin> set (map fst c)" by (simp add: map_of_eq_None_iff)
    then show ?thesis using None
      by (simp add: sortCombination_unfold map_of_foldl_assign)
  next
    case (Some v)
    then have "k \<in> set (map fst c)" by (metis map_of_eq_None_iff option.distinct(1) set_map)
    then show ?thesis using Some
      by (simp add: sortCombination_unfold map_of_foldl_assign index_Some)
  qed
qed

lemma distinct_sortCombination: "distinct (map fst (snd (sortCombination c)))"
  by (simp add: sortCombination_unfold distinct_foldl_assign)

lemma fst_sortCombination: "fst (sortCombination c) = sort (map fst c)"
  by (simp add: sortCombination_unfold)

lemma length_toParams: "length (toParams cs) = length cs"
  by (simp add: toParams_def)

lemma names_toParams: "i < length cs \<Longrightarrow> map Name (toParams cs ! i) = sort (map fst (cs ! i))"
  by (simp add: toParams_def fst_sortCombination comp_def)

lemma assignment_toParams: "i < length cs \<Longrightarrow> assignment (toParams cs ! i) = map_of (cs ! i)"
proof
  fix k
  assume i: "i < length cs"
  let ?c = "cs ! i"
  have row: "assignment (toParams cs ! i) = map_of (map (\<lambda>key. (key, index ?c key)) (sort (map fst ?c)))"
    using i by (simp add: assignment_def toParams_def fst_sortCombination comp_def)
  show "assignment (toParams cs ! i) k = map_of (cs ! i) k"
  proof (cases "map_of ?c k")
    case None
    then have "k \<notin> set (map fst ?c)" by (simp add: map_of_eq_None_iff)
    then have "map_of (map (\<lambda>key. (key, index ?c key)) (sort (map fst ?c))) k = None"
      by (simp add: map_of_eq_None_iff image_image)
    then show ?thesis using None row by simp
  next
    case (Some v)
    then have "k \<in> set (sort (map fst ?c))" by (metis map_of_eq_None_iff option.distinct(1) set_map set_sort)
    then have "map_of (map (\<lambda>key. (key, index ?c key)) (sort (map fst ?c))) k = Some (index ?c k)"
      by (simp add: map_of_map_restrict del: set_sort)
    then show ?thesis using Some row by (simp add: index_Some)
  qed
qed

lemma length_distribute:
  "length (distribute cs param) = length (ArrayVal (Value param)) * length cs"
  by (simp add: distribute_def length_concat comp_def sum_list_triv)

lemma nth_concat_blocks:
  "j < length vs \<Longrightarrow> i < length cs \<Longrightarrow>
   concat (map (\<lambda>v. map (h v) cs) vs) ! (j * length cs + i) = h (vs ! j) (cs ! i)"
proof (induction vs arbitrary: j)
  case Nil
  then show ?case by simp
next
  case (Cons v vs)
  show ?case
  proof (cases j)
    case 0
    then show ?thesis using Cons.prems by (simp add: nth_append)
  next
    case (Suc j')
    then have "concat (map (\<lambda>v. map (h v) cs) (v # vs)) ! (j * length cs + i)
        = concat (map (\<lambda>v. map (h v) cs) vs) ! (j' * length cs + i)"
      by (simp add: nth_append)
    then show ?thesis using Cons Suc by simp
  qed
qed

lemma nth_distribute:
  "j < length (ArrayVal (Value param)) \<Longrightarrow> i < length cs \<Longrightarrow>
   distribute cs param ! (j * length cs + i)
     = snd (sortCombination (assign (cs ! i) (Name param) (ArrayVal (Value param) ! j)))"
  unfolding distribute_def by (rule nth_concat_blocks)

lemma fanOutMatrixParams_Nil: "fanOutMatrixParams [] param = initializeCombinations param"
  by (simp add: fanOutMatrixParams_def len_def)

lemma fanOutMatrixParams_nonempty:
  "cs \<noteq> [] \<Longrightarrow> fanOutMatrixParams cs param = distribute cs param"
  by (simp add: fanOutMatrixParams_def len_def)

lemma length_fanOutMatrixParams:
  "length (fanOutMatrixParams cs param)
     = (if cs = [] then 1 else length cs) * length (ArrayVal (Value param))"
  by (simp add: fanOutMatrixParams_def len_def initializeCombinations_def length_distribute)

lemma lengthsProduct_snoc:
  "lengthsProduct (ps @ [p]) = lengthsProduct ps * len (ArrayVal (Value p))"
  by (simp add: lengthsProduct_def)

lemma lengthsProduct_pos:
  "\<forall>p\<in>set ps. ArrayVal (Value p) \<noteq> [] \<Longrightarrow> 0 < lengthsProduct ps"
  by (induction ps) (simp_all add: lengthsProduct_def len_def)

lemma lengthsProduct_nonneg: "0 \<le> lengthsProduct ps"
  by (induction ps) (simp_all add: lengthsProduct_def len_def)

lemma length_foldl_fanOut:
  "ps \<noteq> [] \<Longrightarrow> \<forall>p\<in>set (butlast ps). ArrayVal (Value p) \<noteq> [] \<Longrightarrow>
   int (length (foldl fanOutMatrixParams [] ps)) = lengthsProduct ps"
proof (induction ps rule: rev_induct)
  case Nil
  then show ?case by simp
next
  case (snoc p ps)
  show ?case
  proof (cases "ps = []")
    case True
    then show ?thesis
      by (simp add: length_fanOutMatrixParams lengthsProduct_def len_def)
  next
    case False
    have all: "\<forall>q\<in>set ps. ArrayVal (Value q) \<noteq> []" using snoc.prems(2) by simp
    then have "\<forall>q\<in>set (butlast ps). ArrayVal (Value q) \<noteq> []"
      by (meson in_set_butlastD)
    then have ih: "int (length (foldl fanOutMatrixParams [] ps)) = lengthsProduct ps"
      using snoc.IH False by blast
    then have "foldl fanOutMatrixParams [] ps \<noteq> []"
      using lengthsProduct_pos [OF all] by auto
    then show ?thesis using ih
      by (simp add: length_fanOutMatrixParams lengthsProduct_snoc len_def)
  qed
qed

lemma foldl_count:
  "int64 c = c \<Longrightarrow>
   foldl (\<lambda>count param. int64 (count * len (ArrayVal (Value param)))) c ps
     = int64 (c * lengthsProduct ps)"
proof (induction ps arbitrary: c)
  case Nil
  then show ?case by (simp add: lengthsProduct_def)
next
  case (Cons p ps)
  have "foldl (\<lambda>count param. int64 (count * len (ArrayVal (Value param))))
          (int64 (c * len (ArrayVal (Value p)))) ps
        = int64 (int64 (c * len (ArrayVal (Value p))) * lengthsProduct ps)"
    by (rule Cons.IH) (rule int64_idem)
  then show ?case by (simp add: int64_mult_left lengthsProduct_def mult.assoc)
qed

lemma countGenerated_product:
  "HasParams (Some m) \<Longrightarrow>
   countGeneratedCombinationsFromParams (Some m) = int64 (lengthsProduct (elems (Params m)))"
  using foldl_count [of 1] by (simp add: countGeneratedCombinationsFromParams_def int64_def)

text \<open>
  When \<^verbatim>\<open>FanOut\<close> returns nothing: only the array of the last parameter decides, since
  an empty list of combinations makes \<open>fanOutMatrixParams\<close> start again.
\<close>

lemma FanOut_empty_iff:
  "FanOut (Some m) = Inr [] \<longleftrightarrow>
     elems (Params m) = [] \<or> ArrayVal (Value (last (elems (Params m)))) = []"
proof (cases "elems (Params m)" rule: rev_cases)
  case Nil
  then show ?thesis by (simp add: toParams_def)
next
  case (snoc ps p)
  have "toParams cs = [] \<longleftrightarrow> cs = []" for cs
    using length_toParams [of cs] by (metis length_0_conv)
  moreover have "fanOutMatrixParams cs p = [] \<longleftrightarrow> ArrayVal (Value p) = []" for cs
  proof -
    have "length (fanOutMatrixParams cs p) = 0 \<longleftrightarrow> length (ArrayVal (Value p)) = 0"
      by (simp only: length_fanOutMatrixParams mult_eq_0_iff) simp
    then show ?thesis by (simp only: length_0_conv)
  qed
  ultimately show ?thesis using snoc by simp
qed

subsection \<open>The number of combinations\<close>

text \<open>
  C2, as the code has it. For every Matrix with non-empty \<^verbatim>\<open>Params\<close> of array lengths
  \<open>l1, ..., ln\<close> and empty \<^verbatim>\<open>Include\<close>, in which no parameter before the last one has a
  zero-length array and the product \<open>l1 * ... * ln\<close> is below \<open>2 ^ 63\<close>, \<^verbatim>\<open>FanOut\<close>
  returns a sequence whose length is the product, and the product is
  \<^verbatim>\<open>CountCombinations\<close> of the Matrix.
\<close>

theorem FanOut_length_product:
  assumes "Params m = Some ps" and "ps \<noteq> []"
    and "Include m = None \<or> Include m = Some []"
    and "\<forall>p\<in>set (butlast ps). ArrayVal (Value p) \<noteq> []"
    and "lengthsProduct ps < 2 ^ 63"
  shows "\<exists>out. FanOut (Some m) = Inr out \<and> len out = lengthsProduct ps
           \<and> CountCombinations (Some m) = lengthsProduct ps"
proof -
  have hp: "HasParams (Some m)" using assms(1,2) by (simp add: elems_def len_def)
  have ni: "\<not> HasInclude (Some m)" using assms(3) by (auto simp: elems_def len_def)
  have "int64 (lengthsProduct ps) = lengthsProduct ps"
    using lengthsProduct_nonneg [of ps] assms(5) by (intro int64_id) simp_all
  then have count: "CountCombinations (Some m) = lengthsProduct ps"
    using countGenerated_product [OF hp] ni assms(1)
    by (simp add: CountCombinations_def countNewCombinationsFromInclude_def elems_def)
  have "len (toParams (foldl fanOutMatrixParams [] ps)) = lengthsProduct ps"
    using length_foldl_fanOut [OF assms(2,4)] by (simp add: len_def length_toParams)
  then show ?thesis using count assms(1) by (simp add: elems_def)
qed

theorem FanOut_length_product_witness:
  "Params osVerMatrix = Some [arrayParam ''OS'' [''linux'', ''mac''], arrayParam ''VER'' [''1'', ''2'']]
   \<and> lengthsProduct [arrayParam ''OS'' [''linux'', ''mac''], arrayParam ''VER'' [''1'', ''2'']] = 4
   \<and> (\<exists>out. FanOut (Some osVerMatrix) = Inr out \<and> len out = 4)
   \<and> CountCombinations (Some osVerMatrix) = 4"
proof -
  let ?ps = "[arrayParam ''OS'' [''linux'', ''mac''], arrayParam ''VER'' [''1'', ''2'']]"
  have p: "Params osVerMatrix = Some ?ps" by (simp add: osVerMatrix_def)
  have i: "Include osVerMatrix = None \<or> Include osVerMatrix = Some []"
    by (simp add: osVerMatrix_def)
  have b: "\<forall>p\<in>set (butlast ?ps). ArrayVal (Value p) \<noteq> []" by (simp add: arrayParam_def)
  have l: "lengthsProduct ?ps = 4" by (simp add: lengthsProduct_def arrayParam_def len_def)
  have "?ps \<noteq> []" and "lengthsProduct ?ps < 2 ^ 63" using l by simp_all
  from FanOut_length_product [OF p this(1) i b this(2)] p l show ?thesis by simp
qed

lemma lengthsProduct_sixtyFour: "lengthsProduct sixtyFourParams = 2 ^ 64"
proof -
  have "map (\<lambda>p. len (ArrayVal (Value p))) sixtyFourParams = replicate 64 2"
    by (simp add: sixtyFourParams_def arrayParam_def len_def comp_def map_replicate_const)
  then show ?thesis by (simp add: lengthsProduct_def prod_list_replicate)
qed

text \<open>
  C2, as it is stated, fails in two ways. With the parameters \<open>A\<close> (no value) and \<open>B\<close>
  (two values) the product is 0 and \<^verbatim>\<open>FanOut\<close> returns two combinations. With 64
  parameters of two values each the product is \<open>2 ^ 64\<close> and \<^verbatim>\<open>CountCombinations\<close>,
  computed in 64 bits, is 0.
\<close>

theorem FanOut_length_product_fails:
  "HasParams (Some emptyFirstMatrix) \<and> \<not> HasInclude (Some emptyFirstMatrix)
   \<and> FanOut (Some emptyFirstMatrix) = Inr [[stringParam ''B'' ''1''], [stringParam ''B'' ''2'']]
   \<and> lengthsProduct (elems (Params emptyFirstMatrix)) = 0
   \<and> HasParams (Some sixtyFourMatrix) \<and> \<not> HasInclude (Some sixtyFourMatrix)
   \<and> lengthsProduct (elems (Params sixtyFourMatrix)) = 2 ^ 64
   \<and> CountCombinations (Some sixtyFourMatrix) = 0"
proof -
  have a: "FanOut (Some emptyFirstMatrix) = Inr [[stringParam ''B'' ''1''], [stringParam ''B'' ''2'']]"
    by (simp add: emptyFirstMatrix_def elems_def fanOutMatrixParams_def len_def
      initializeCombinations_def arrayParam_def stringParam_def toParams_def
      sortCombination_def index_def)
  have b: "lengthsProduct (elems (Params emptyFirstMatrix)) = 0"
    by (simp add: emptyFirstMatrix_def elems_def lengthsProduct_def arrayParam_def len_def)
  have c: "HasParams (Some emptyFirstMatrix) \<and> \<not> HasInclude (Some emptyFirstMatrix)"
    by (simp add: emptyFirstMatrix_def elems_def len_def)
  have el: "elems (Params sixtyFourMatrix) = sixtyFourParams"
    by (simp add: sixtyFourMatrix_def elems_def)
  have d: "HasParams (Some sixtyFourMatrix) \<and> \<not> HasInclude (Some sixtyFourMatrix)"
    by (simp add: sixtyFourMatrix_def elems_def len_def sixtyFourParams_def)
  have "countGeneratedCombinationsFromParams (Some sixtyFourMatrix) = int64 (2 ^ 64)"
    using countGenerated_product [of sixtyFourMatrix] d el lengthsProduct_sixtyFour by simp
  then have e: "CountCombinations (Some sixtyFourMatrix) = 0"
    using d by (simp add: CountCombinations_def countNewCombinationsFromInclude_def int64_def)
  show ?thesis using a b c d e el lengthsProduct_sixtyFour by simp
qed

subsection \<open>The order of the combinations\<close>

lemma block_index_less: "j < l \<Longrightarrow> i < n \<Longrightarrow> j * n + i < l * (n::nat)"
proof -
  assume "j < l" "i < n"
  then have "j * n + i < j * n + n" by simp
  also have "\<dots> = Suc j * n" by simp
  also have "\<dots> \<le> l * n" using \<open>j < l\<close> by (intro mult_le_mono1) simp
  finally show ?thesis .
qed

lemma foldl_fanOut_nonempty:
  "ps \<noteq> [] \<Longrightarrow> \<forall>q\<in>set ps. ArrayVal (Value q) \<noteq> [] \<Longrightarrow>
   foldl fanOutMatrixParams [] ps \<noteq> []"
proof -
  assume ne: "ps \<noteq> []" and all: "\<forall>q\<in>set ps. ArrayVal (Value q) \<noteq> []"
  then have "\<forall>q\<in>set (butlast ps). ArrayVal (Value q) \<noteq> []" by (meson in_set_butlastD)
  then have "int (length (foldl fanOutMatrixParams [] ps)) = lengthsProduct ps"
    using ne by (rule length_foldl_fanOut [rotated])
  then show ?thesis using lengthsProduct_pos [OF all] by auto
qed

lemma distinct_keys_fanOutMatrixParams:
  "\<forall>c\<in>set (fanOutMatrixParams cs param). distinct (map fst c)"
  by (auto simp: fanOutMatrixParams_def initializeCombinations_def distribute_def
      distinct_sortCombination)

lemma distinct_keys_foldl_fanOut:
  "\<forall>c\<in>set (foldl fanOutMatrixParams [] ps). distinct (map fst c)"
  by (induction ps rule: rev_induct) (simp_all add: distinct_keys_fanOutMatrixParams)

lemma toParams_single:
  "toParams (initializeCombinations p) = map (\<lambda>v. [stringParam (Name p) v]) (ArrayVal (Value p))"
  by (simp add: toParams_def initializeCombinations_def sortCombination_unfold index_def
      stringParam_def comp_def)

lemma FanOut_single:
  "Params m = Some [p] \<Longrightarrow>
   FanOut (Some m) = Inr (map (\<lambda>v. [stringParam (Name p) v]) (ArrayVal (Value p)))"
  by (simp add: elems_def fanOutMatrixParams_Nil toParams_single)

lemma FanOut_blocks:
  assumes "Params m = Some (ps @ [p])" and "ps \<noteq> []"
    and "\<forall>q\<in>set ps. ArrayVal (Value q) \<noteq> []"
  shows "\<exists>prev out. FanOut (Some (m\<lparr>Params := Some ps\<rparr>)) = Inr prev \<and> FanOut (Some m) = Inr out
           \<and> length out = length (ArrayVal (Value p)) * length prev
           \<and> (\<forall>j<length (ArrayVal (Value p)). \<forall>i<length prev.
                 assignment (out ! (j * length prev + i))
                   = (assignment (prev ! i))(Name p \<mapsto> ArrayVal (Value p) ! j))"
proof -
  let ?cs = "foldl fanOutMatrixParams [] ps"
  let ?vals = "ArrayVal (Value p)"
  have ne: "?cs \<noteq> []" using assms(2,3) by (rule foldl_fanOut_nonempty)
  have prev: "FanOut (Some (m\<lparr>Params := Some ps\<rparr>)) = Inr (toParams ?cs)"
    by (simp add: elems_def)
  have out: "FanOut (Some m) = Inr (toParams (distribute ?cs p))"
    using assms(1) ne by (simp add: elems_def fanOutMatrixParams_nonempty)
  have len: "length (toParams (distribute ?cs p)) = length ?vals * length (toParams ?cs)"
    by (simp add: length_toParams length_distribute)
  have blocks: "assignment (toParams (distribute ?cs p) ! (j * length (toParams ?cs) + i))
        = (assignment (toParams ?cs ! i))(Name p \<mapsto> ?vals ! j)"
    if j: "j < length ?vals" and i: "i < length (toParams ?cs)" for j i
  proof -
    have i': "i < length ?cs" using i by (simp add: length_toParams)
    have "j * length ?cs + i < length (distribute ?cs p)"
      using j i' by (simp add: length_distribute block_index_less)
    then have "assignment (toParams (distribute ?cs p) ! (j * length ?cs + i))
        = map_of (distribute ?cs p ! (j * length ?cs + i))"
      by (rule assignment_toParams)
    also have "\<dots> = map_of (snd (sortCombination (assign (?cs ! i) (Name p) (?vals ! j))))"
      using j i' by (simp add: nth_distribute)
    also have "\<dots> = (map_of (?cs ! i))(Name p \<mapsto> ?vals ! j)"
      by (simp add: map_of_sortCombination map_of_assign)
    also have "\<dots> = (assignment (toParams ?cs ! i))(Name p \<mapsto> ?vals ! j)"
      using i' by (simp add: assignment_toParams)
    finally show ?thesis by (simp add: length_toParams)
  qed
  show ?thesis using prev out len blocks by blast
qed

lemma blockSize_pos: "\<forall>q\<in>set ps. ArrayVal (Value q) \<noteq> [] \<Longrightarrow> 0 < blockSize ps k"
  unfolding blockSize_def
  by (induction ps arbitrary: k) (auto simp: take_Cons split: nat.splits)

lemma blockSize_append: "k \<le> length ps \<Longrightarrow> blockSize (ps @ qs) k = blockSize ps k"
  by (simp add: blockSize_def)

lemma blockSize_snoc:
  "blockSize (ps @ [p]) (Suc (length ps)) = blockSize ps (length ps) * length (ArrayVal (Value p))"
  by (simp add: blockSize_def)

lemma blockSize_split:
  assumes "k < length ps"
  shows "blockSize ps (length ps)
    = blockSize ps k * length (ArrayVal (Value (ps ! k)))
        * prod_list (map (\<lambda>p. length (ArrayVal (Value p))) (drop (Suc k) ps))"
proof -
  have "ps = take k ps @ ps ! k # drop (Suc k) ps"
    using assms by (rule id_take_nth_drop)
  then have "map (\<lambda>p. length (ArrayVal (Value p))) ps
      = map (\<lambda>p. length (ArrayVal (Value p))) (take k ps)
        @ length (ArrayVal (Value (ps ! k)))
        # map (\<lambda>p. length (ArrayVal (Value p))) (drop (Suc k) ps)"
    by (metis list.simps(9) map_append)
  then show ?thesis by (simp add: blockSize_def mult.assoc)
qed

lemma lengthsProduct_blockSize: "lengthsProduct ps = int (blockSize ps (length ps))"
  by (induction ps) (simp_all add: lengthsProduct_def blockSize_def len_def)

lemma lower_digit:
  fixes B l R j i' :: nat
  assumes "0 < B"
  shows "((j * (B * l * R) + i') div B) mod l = (i' div B) mod l"
proof -
  have e: "j * (B * l * R) + i' = B * (l * (j * R)) + i'" by (simp add: mult_ac)
  have "(B * (l * (j * R)) + i') div B = l * (j * R) + i' div B"
    by (rule div_mult_self4) (use assms in simp)
  then have "(j * (B * l * R) + i') div B = l * (j * R) + i' div B"
    by (simp only: e)
  then show ?thesis by simp
qed

lemma nth_foldl_fanOut:
  "ps \<noteq> [] \<Longrightarrow> \<forall>q\<in>set ps. ArrayVal (Value q) \<noteq> [] \<Longrightarrow> distinct (map Name ps) \<Longrightarrow>
   length (foldl fanOutMatrixParams [] ps) = blockSize ps (length ps)
   \<and> (\<forall>i<blockSize ps (length ps). \<forall>k<length ps.
         map_of (foldl fanOutMatrixParams [] ps ! i) (Name (ps ! k))
           = Some (ArrayVal (Value (ps ! k)) ! valueIndex ps k i))"
proof (induction ps rule: rev_induct)
  case Nil
  then show ?case by simp
next
  case (snoc p ps)
  let ?vals = "ArrayVal (Value p)"
  show ?case
  proof (cases "ps = []")
    case True
    then show ?thesis
      by (simp add: fanOutMatrixParams_Nil initializeCombinations_def blockSize_def
          valueIndex_def)
  next
    case False
    let ?cs = "foldl fanOutMatrixParams [] ps"
    let ?N = "blockSize ps (length ps)"
    have all: "\<forall>q\<in>set ps. ArrayVal (Value q) \<noteq> []" using snoc.prems(2) by simp
    have dist: "distinct (map Name ps)" using snoc.prems(3) by simp
    have ih: "length ?cs = ?N
       \<and> (\<forall>i<?N. \<forall>k<length ps.
             map_of (?cs ! i) (Name (ps ! k)) = Some (ArrayVal (Value (ps ! k)) ! valueIndex ps k i))"
      using snoc.IH [OF False all dist] .
    have lcs: "length ?cs = ?N" using ih by blast
    have Npos: "0 < ?N" using all by (rule blockSize_pos)
    then have ne: "?cs \<noteq> []" using lcs by auto
    have fold: "foldl fanOutMatrixParams [] (ps @ [p]) = distribute ?cs p"
      using ne by (simp add: fanOutMatrixParams_nonempty)
    have len: "length (distribute ?cs p) = blockSize (ps @ [p]) (length (ps @ [p]))"
      by (simp add: lcs length_distribute blockSize_snoc mult.commute)
    have nth: "map_of (distribute ?cs p ! i) (Name ((ps @ [p]) ! k))
           = Some (ArrayVal (Value ((ps @ [p]) ! k)) ! valueIndex (ps @ [p]) k i)"
      if i: "i < blockSize (ps @ [p]) (length (ps @ [p]))" and k: "k < length (ps @ [p])" for i k
    proof -
      let ?j = "i div ?N" and ?i' = "i mod ?N"
      have iN: "i < length ?vals * ?N" using i by (simp add: blockSize_snoc mult.commute)
      have j: "?j < length ?vals" using iN Npos by (simp add: less_mult_imp_div_less)
      have i': "?i' < length ?cs" using Npos lcs by simp
      have split: "i = ?j * length ?cs + ?i'"
        unfolding lcs by (rule div_mult_mod_eq [symmetric])
      have "distribute ?cs p ! (?j * length ?cs + ?i')
          = snd (sortCombination (assign (?cs ! ?i') (Name p) (?vals ! ?j)))"
        using j i' by (rule nth_distribute)
      then have row: "map_of (distribute ?cs p ! i) = (map_of (?cs ! ?i'))(Name p \<mapsto> ?vals ! ?j)"
        using split by (simp add: map_of_sortCombination map_of_assign)
      show ?thesis
      proof (cases "k = length ps")
        case True
        have "valueIndex (ps @ [p]) k i = ?j"
          using True j by (simp add: valueIndex_def blockSize_append)
        then show ?thesis using True row by simp
      next
        case False
        then have k': "k < length ps" using k by simp
        then have "Name (ps ! k) \<in> set (map Name ps)" by simp
        then have neq: "Name (ps ! k) \<noteq> Name p" using snoc.prems(3) by auto
        have "?N = blockSize ps k * length (ArrayVal (Value (ps ! k)))
            * prod_list (map (\<lambda>p. length (ArrayVal (Value p))) (drop (Suc k) ps))"
          using k' by (rule blockSize_split)
        moreover have "0 < blockSize ps k" using all by (rule blockSize_pos)
        ultimately have "((?j * ?N + ?i') div blockSize ps k) mod length (ArrayVal (Value (ps ! k)))
            = (?i' div blockSize ps k) mod length (ArrayVal (Value (ps ! k)))"
          by (metis lower_digit)
        moreover have "?j * ?N + ?i' = i" by (rule div_mult_mod_eq)
        ultimately have "(i div blockSize ps k) mod length (ArrayVal (Value (ps ! k)))
            = (?i' div blockSize ps k) mod length (ArrayVal (Value (ps ! k)))"
          by (simp only:)
        then have "valueIndex (ps @ [p]) k i = valueIndex ps k ?i'"
          using k' by (simp add: valueIndex_def blockSize_append nth_append)
        moreover have "map_of (?cs ! ?i') (Name (ps ! k))
            = Some (ArrayVal (Value (ps ! k)) ! valueIndex ps k ?i')"
          using ih k' Npos by simp
        ultimately show ?thesis using row neq k' by (simp add: nth_append)
      qed
    qed
    show ?thesis using fold len nth by simp
  qed
qed

lemma FanOut_valueIndex:
  assumes "Params m = Some ps" "ps \<noteq> []" "\<forall>q\<in>set ps. ArrayVal (Value q) \<noteq> []"
    "distinct (map Name ps)"
  shows "\<exists>out. FanOut (Some m) = Inr out \<and> length out = blockSize ps (length ps)
     \<and> (\<forall>i<length out. \<forall>k<length ps.
           assignment (out ! i) (Name (ps ! k))
             = Some (ArrayVal (Value (ps ! k)) ! valueIndex ps k i))"
proof -
  let ?cs = "foldl fanOutMatrixParams [] ps"
  note n = nth_foldl_fanOut [OF assms(2,3,4)]
  have "FanOut (Some m) = Inr (toParams ?cs)" using assms(1) by (simp add: elems_def)
  moreover have "length (toParams ?cs) = blockSize ps (length ps)"
    using n by (simp add: length_toParams)
  moreover have "assignment (toParams ?cs ! i) (Name (ps ! k))
             = Some (ArrayVal (Value (ps ! k)) ! valueIndex ps k i)"
    if "i < length (toParams ?cs)" "k < length ps" for i k
    using that n by (simp add: length_toParams assignment_toParams)
  ultimately show ?thesis by blast
qed

text \<open>
  C4. For every Matrix whose \<^verbatim>\<open>Params\<close> are non-empty arrays, later-declared parameters
  vary slower and earlier-declared ones faster. A single parameter gives one singleton
  combination for each of its values, in their order. The output for \<open>ps @ [p]\<close>
  consists of one block for each value of \<open>p\<close>, in the order of the values, and block \<open>j\<close>
  is the output for \<open>ps\<close> with \<open>p\<close> set to value \<open>j\<close>. With distinct names, combination
  number \<open>i\<close> gives parameter \<open>k\<close> the value at place
  \<open>(i div (l1 * ... * l(k-1))) mod lk\<close> of its array. For \<open>OS\<close> with \<open>linux, mac\<close> and
  \<open>VER\<close> with \<open>1, 2\<close>, \<^verbatim>\<open>FanOut\<close> yields \<open>linux 1\<close>, \<open>mac 1\<close>, \<open>linux 2\<close>, \<open>mac 2\<close>.
\<close>

theorem FanOut_order:
  "(Params m1 = Some [p1] \<longrightarrow>
      FanOut (Some m1) = Inr (map (\<lambda>v. [stringParam (Name p1) v]) (ArrayVal (Value p1))))
   \<and> (Params m = Some (ps @ [p]) \<and> ps \<noteq> [] \<and> (\<forall>q\<in>set (ps @ [p]). ArrayVal (Value q) \<noteq> []) \<longrightarrow>
        (\<exists>prev out. FanOut (Some (m\<lparr>Params := Some ps\<rparr>)) = Inr prev \<and> FanOut (Some m) = Inr out
           \<and> length out = length (ArrayVal (Value p)) * length prev
           \<and> (\<forall>j<length (ArrayVal (Value p)). \<forall>i<length prev.
                 assignment (out ! (j * length prev + i))
                   = (assignment (prev ! i))(Name p \<mapsto> ArrayVal (Value p) ! j))))
   \<and> (Params m2 = Some ps2 \<and> ps2 \<noteq> [] \<and> (\<forall>q\<in>set ps2. ArrayVal (Value q) \<noteq> [])
        \<and> distinct (map Name ps2) \<longrightarrow>
        (\<exists>out. FanOut (Some m2) = Inr out \<and> length out = blockSize ps2 (length ps2)
           \<and> (\<forall>i<length out. \<forall>k<length ps2.
                 assignment (out ! i) (Name (ps2 ! k))
                   = Some (ArrayVal (Value (ps2 ! k)) ! valueIndex ps2 k i))))
   \<and> FanOut (Some osVerMatrix) =
        Inr [[stringParam ''OS'' ''linux'', stringParam ''VER'' ''1''],
             [stringParam ''OS'' ''mac'', stringParam ''VER'' ''1''],
             [stringParam ''OS'' ''linux'', stringParam ''VER'' ''2''],
             [stringParam ''OS'' ''mac'', stringParam ''VER'' ''2'']]"
proof -
  have example: "FanOut (Some osVerMatrix) =
        Inr [[stringParam ''OS'' ''linux'', stringParam ''VER'' ''1''],
             [stringParam ''OS'' ''mac'', stringParam ''VER'' ''1''],
             [stringParam ''OS'' ''linux'', stringParam ''VER'' ''2''],
             [stringParam ''OS'' ''mac'', stringParam ''VER'' ''2'']]"
    by (simp add: osVerMatrix_def elems_def fanOutMatrixParams_def len_def
        initializeCombinations_def distribute_def arrayParam_def stringParam_def
        toParams_def sortCombination_def index_def)
  have blocks: "\<exists>prev out. FanOut (Some (m\<lparr>Params := Some ps\<rparr>)) = Inr prev \<and> FanOut (Some m) = Inr out
           \<and> length out = length (ArrayVal (Value p)) * length prev
           \<and> (\<forall>j<length (ArrayVal (Value p)). \<forall>i<length prev.
                 assignment (out ! (j * length prev + i))
                   = (assignment (prev ! i))(Name p \<mapsto> ArrayVal (Value p) ! j))"
    if "Params m = Some (ps @ [p]) \<and> ps \<noteq> [] \<and> (\<forall>q\<in>set (ps @ [p]). ArrayVal (Value q) \<noteq> [])"
    using that by (intro FanOut_blocks) simp_all
  have digits: "\<exists>out. FanOut (Some m2) = Inr out \<and> length out = blockSize ps2 (length ps2)
           \<and> (\<forall>i<length out. \<forall>k<length ps2.
                 assignment (out ! i) (Name (ps2 ! k))
                   = Some (ArrayVal (Value (ps2 ! k)) ! valueIndex ps2 k i))"
    if "Params m2 = Some ps2 \<and> ps2 \<noteq> [] \<and> (\<forall>q\<in>set ps2. ArrayVal (Value q) \<noteq> [])
        \<and> distinct (map Name ps2)"
    using that by (intro FanOut_valueIndex) simp_all
  show ?thesis using example blocks digits FanOut_single [of m1 p1] by blast
qed

theorem FanOut_order_witness:
  "FanOut (Some (osVerMatrix\<lparr>Params := Some [arrayParam ''OS'' [''linux'', ''mac'']]\<rparr>))
     = Inr [[stringParam ''OS'' ''linux''], [stringParam ''OS'' ''mac'']]
   \<and> (\<exists>prev out.
         FanOut (Some (osVerMatrix\<lparr>Params := Some [arrayParam ''OS'' [''linux'', ''mac'']]\<rparr>)) = Inr prev
         \<and> FanOut (Some osVerMatrix) = Inr out \<and> length out = 2 * length prev
         \<and> assignment (out ! (1 * length prev + 0)) = (assignment (prev ! 0))(''VER'' \<mapsto> ''2''))
   \<and> (\<exists>out. FanOut (Some osVerMatrix) = Inr out \<and> length out = 4
         \<and> assignment (out ! 2) ''OS'' = Some ''linux'' \<and> assignment (out ! 2) ''VER'' = Some ''2'')"
proof -
  let ?os = "arrayParam ''OS'' [''linux'', ''mac'']"
  let ?ver = "arrayParam ''VER'' [''1'', ''2'']"
  let ?m1 = "osVerMatrix\<lparr>Params := Some [?os]\<rparr>"
  note T = FanOut_order [of ?m1 ?os osVerMatrix "[?os]" ?ver osVerMatrix "[?os, ?ver]"]
  have h1: "Params ?m1 = Some [?os]" by simp
  have h2: "Params osVerMatrix = Some ([?os] @ [?ver]) \<and> [?os] \<noteq> []
      \<and> (\<forall>q\<in>set ([?os] @ [?ver]). ArrayVal (Value q) \<noteq> [])"
    by (simp add: osVerMatrix_def arrayParam_def)
  have h3: "Params osVerMatrix = Some [?os, ?ver] \<and> [?os, ?ver] \<noteq> []
      \<and> (\<forall>q\<in>set [?os, ?ver]. ArrayVal (Value q) \<noteq> []) \<and> distinct (map Name [?os, ?ver])"
    by (simp add: osVerMatrix_def arrayParam_def)
  have single: "FanOut (Some ?m1) = Inr [[stringParam ''OS'' ''linux''], [stringParam ''OS'' ''mac'']]"
    using T h1 by (simp add: arrayParam_def)
  from T h2 obtain prev out where b: "FanOut (Some ?m1) = Inr prev" "FanOut (Some osVerMatrix) = Inr out"
      "length out = length (ArrayVal (Value ?ver)) * length prev"
      "\<forall>j<length (ArrayVal (Value ?ver)). \<forall>i<length prev.
                 assignment (out ! (j * length prev + i))
                   = (assignment (prev ! i))(Name ?ver \<mapsto> ArrayVal (Value ?ver) ! j)"
    by blast
  have lp: "length prev = 2" using b(1) single by auto
  have "1 < length (ArrayVal (Value ?ver))" and "0 < length prev"
    using lp by (simp_all add: arrayParam_def)
  then have "assignment (out ! (1 * length prev + 0)) = (assignment (prev ! 0))(Name ?ver \<mapsto> ArrayVal (Value ?ver) ! 1)"
    using b(4) by blast
  then have blk: "assignment (out ! (1 * length prev + 0)) = (assignment (prev ! 0))(''VER'' \<mapsto> ''2'')"
    by (simp add: arrayParam_def)
  have lo: "length out = 2 * length prev" using b(3) by (simp add: arrayParam_def)
  from T h3 obtain out' where d: "FanOut (Some osVerMatrix) = Inr out'"
      "length out' = blockSize [?os, ?ver] (length [?os, ?ver])"
      "\<forall>i<length out'. \<forall>k<length [?os, ?ver].
                 assignment (out' ! i) (Name ([?os, ?ver] ! k))
                   = Some (ArrayVal (Value ([?os, ?ver] ! k)) ! valueIndex [?os, ?ver] k i)"
    by blast
  have l4: "length out' = 4" using d(2) by (simp add: blockSize_def arrayParam_def)
  have "assignment (out' ! 2) (Name ([?os, ?ver] ! 0))
          = Some (ArrayVal (Value ([?os, ?ver] ! 0)) ! valueIndex [?os, ?ver] 0 2)"
    using d(3) [rule_format, of 2 0] l4 by simp
  moreover have "valueIndex [?os, ?ver] 0 2 = 0"
    by (simp add: valueIndex_def blockSize_def arrayParam_def numeral_2_eq_2)
  ultimately have os: "assignment (out' ! 2) ''OS'' = Some ''linux''"
    by (simp add: arrayParam_def)
  have "assignment (out' ! 2) (Name ([?os, ?ver] ! 1))
          = Some (ArrayVal (Value ([?os, ?ver] ! 1)) ! valueIndex [?os, ?ver] 1 2)"
    using d(3) [rule_format, of 2 1] l4 by simp
  moreover have "valueIndex [?os, ?ver] 1 2 = 1"
    by (simp add: valueIndex_def blockSize_def arrayParam_def numeral_2_eq_2)
  ultimately have ver: "assignment (out' ! 2) ''VER'' = Some ''2''"
    by (simp add: arrayParam_def)
  show ?thesis using single b(1,2) lo blk d(1) l4 os ver by blast
qed

subsection \<open>The order of the names within a combination\<close>

text \<open>
  C7. For every Matrix, each parameter list that \<^verbatim>\<open>FanOut\<close> returns has its names in
  lexicographic order (and no name twice); and the parameter list made from a
  combination does not depend on the order in which the map holds its keys.
\<close>

theorem FanOut_rows_sorted:
  "(\<exists>out. FanOut (Some m) = Inr out
      \<and> (\<forall>row\<in>set out. sorted (map Name row) \<and> distinct (map Name row)))
   \<and> (distinct (map fst c) \<and> distinct (map fst c') \<and> map_of c = map_of c' \<longrightarrow>
        toParams [c] = toParams [c'])"
proof (intro conjI impI)
  let ?cs = "foldl fanOutMatrixParams [] (elems (Params m))"
  have "sorted (map Name row) \<and> distinct (map Name row)" if "row \<in> set (toParams ?cs)" for row
  proof -
    from that obtain i where i: "i < length ?cs" and row: "row = toParams ?cs ! i"
      by (metis in_set_conv_nth length_toParams)
    have "distinct (map fst (?cs ! i))"
      using distinct_keys_foldl_fanOut i by (metis nth_mem)
    then show ?thesis using i row by (simp add: names_toParams)
  qed
  then show "\<exists>out. FanOut (Some m) = Inr out
      \<and> (\<forall>row\<in>set out. sorted (map Name row) \<and> distinct (map Name row))"
    by simp
next
  assume h: "distinct (map fst c) \<and> distinct (map fst c') \<and> map_of c = map_of c'"
  then have "dom (map_of c) = dom (map_of c')" by simp
  then have keys: "set (map fst c) = set (map fst c')" by (simp add: dom_map_of_conv_image_fst)
  have "sort (map fst c) = sort (map fst c')"
    using h keys by (intro sorted_distinct_set_unique) simp_all
  moreover have "index c = index c'" using h by (simp add: index_def fun_eq_iff)
  ultimately show "toParams [c] = toParams [c']"
    by (simp add: toParams_def fst_sortCombination)
qed

theorem FanOut_rows_sorted_witness:
  "(\<exists>out. FanOut (Some osVerMatrix) = Inr out
      \<and> (\<forall>row\<in>set out. sorted (map Name row) \<and> distinct (map Name row)))
   \<and> toParams [[(''VER'', ''1''), (''OS'', ''mac'')]] = toParams [[(''OS'', ''mac''), (''VER'', ''1'')]]
   \<and> toParams [[(''VER'', ''1''), (''OS'', ''mac'')]] = [[stringParam ''OS'' ''mac'', stringParam ''VER'' ''1'']]"
proof -
  let ?c = "[(''VER'', ''1''), (''OS'', ''mac'')]" and ?c' = "[(''OS'', ''mac''), (''VER'', ''1'')]"
  have "distinct (map fst ?c) \<and> distinct (map fst ?c') \<and> map_of ?c = map_of ?c'"
    by (auto simp: fun_eq_iff)
  moreover have "toParams [?c] = [[stringParam ''OS'' ''mac'', stringParam ''VER'' ''1'']]"
    by (simp add: toParams_def sortCombination_def index_def stringParam_def)
  ultimately show ?thesis
    using FanOut_rows_sorted [of osVerMatrix ?c ?c'] by blast
qed

end
